theory Spec2Isabelle
  imports Complex_Main
begin

section \<open>Ant-inspired path integration: the simulation of \<^verbatim>\<open>ant_trajectory.py\<close>\<close>

text \<open>
  The script is one straight-line program: it seeds numpy's global generator, walks
  \<^verbatim>\<open>num_explore_steps\<close> exploration steps while it integrates its displacement, and
  then walks home along the reverse of the integrated vector. The plotting and animation
  code that follows only reads the lists recorded here and is not modelled.

  Numbers: Python's \<^verbatim>\<open>float\<close> and numpy's \<^verbatim>\<open>float64\<close> are idealised as \<^typ>\<open>real\<close>
  (no rounding, no NaN or infinity; the one place where the script can produce them, the
  division by \<^verbatim>\<open>step_length\<close>, is an explicit error branch). Python's \<^verbatim>\<open>int\<close> is
  \<^typ>\<open>int\<close>. numpy's random generator is not part of the repository: its state is a type
  variable \<open>'g\<close>, and \<^verbatim>\<open>np.random.seed\<close> and \<^verbatim>\<open>np.random.uniform\<close> are parameters
  \<open>seed_fn :: int \<Rightarrow> 'g\<close> and \<open>U :: real \<Rightarrow> real \<Rightarrow> 'g \<Rightarrow> real \<times> 'g\<close> (low, high and the
  generator state in; the sample and the next generator state out).
\<close>

subsection \<open>Errors the script can raise\<close>

datatype error =
    ZeroDivisionError  \<comment> \<open>\<^verbatim>\<open>step % scan_interval\<close> with \<^verbatim>\<open>scan_interval == 0\<close>\<close>
  | ValueError         \<comment> \<open>\<^verbatim>\<open>int(nan)\<close>: \<^verbatim>\<open>0.0 / 0.0\<close> on a numpy float64\<close>
  | OverflowError      \<comment> \<open>\<^verbatim>\<open>int(inf)\<close>: a non-zero float64 divided by \<^verbatim>\<open>0.0\<close>\<close>

subsection \<open>Simulation parameters (lines 61--70)\<close>

record config =
  step_length :: real
  num_explore_steps :: int
  scan_interval :: int
  scan_gain :: real
  sun_direction :: real

definition script_seed :: int where
  "script_seed = 1"

definition script_config :: config where
  "script_config =
     \<lparr>step_length = 5 / 10, num_explore_steps = 120, scan_interval = 10,
      scan_gain = 1 / 10, sun_direction = 0\<rparr>"

subsection \<open>State variables and history lists (lines 77--90)\<close>

text \<open>
  The script's variables. The generator state lives in numpy, not in a variable of the
  script, and is threaded beside this record.
\<close>

record ant =
  x :: real
  y :: real
  Dx :: real
  Dy :: real
  theta :: real
  explore_x :: "real list"
  explore_y :: "real list"
  Dx_hist :: "real list"
  Dy_hist :: "real list"
  theta_hist :: "real list"

definition init_ant :: ant where
  "init_ant =
     \<lparr>x = 0, y = 0, Dx = 0, Dy = 0, theta = 0,
      explore_x = [0], explore_y = [0], Dx_hist = [0], Dy_hist = [0], theta_hist = [0]\<rparr>"

subsection \<open>Python primitives\<close>

text \<open>\<^verbatim>\<open>range(n)\<close>: the integers \<open>0, \<dots>, n - 1\<close>, empty when \<open>n \<le> 0\<close>.\<close>

definition py_range :: "int \<Rightarrow> int list" where
  "py_range n = map int [0..<nat n]"

text \<open>
  \<^verbatim>\<open>a % b\<close> on Python integers: the result has the sign of the divisor, as HOL's \<open>mod\<close>
  on \<^typ>\<open>int\<close> has, and a zero divisor raises.
\<close>

definition py_mod :: "int \<Rightarrow> int \<Rightarrow> error + int" where
  "py_mod a b = (if b = 0 then Inl ZeroDivisionError else Inr (a mod b))"

text \<open>\<^verbatim>\<open>int(r)\<close> on a finite float: truncation towards zero.\<close>

definition py_int :: "real \<Rightarrow> int" where
  "py_int r = (if 0 \<le> r then \<lfloor>r\<rfloor> else \<lceil>r\<rceil>)"

text \<open>
  \<^verbatim>\<open>int(a / b)\<close> where \<open>a\<close> is a numpy float64: a zero divisor does not raise at the
  division (numpy warns and yields NaN for \<open>0 / 0\<close>, an infinity otherwise); the
  conversion to \<^verbatim>\<open>int\<close> raises then.
\<close>

definition int_of_quotient :: "real \<Rightarrow> real \<Rightarrow> error + int" where
  "int_of_quotient a b =
     (if b = 0 then (if a = 0 then Inl ValueError else Inl OverflowError)
      else Inr (py_int (a / b)))"

text \<open>
  \<^verbatim>\<open>np.arctan2(b, a)\<close> on reals: the angle in \<open>(-\<pi>, \<pi>]\<close> of the point \<open>(a, b)\<close>, and
  \<open>0\<close> at the origin.
\<close>

definition arctan2 :: "real \<Rightarrow> real \<Rightarrow> real" where
  "arctan2 b a =
     (if 0 < a then arctan (b / a)
      else if a < 0 then (if 0 \<le> b then arctan (b / a) + pi else arctan (b / a) - pi)
      else if 0 < b then pi / 2
      else if b < 0 then - (pi / 2)
      else 0)"

subsection \<open>Exploration phase (lines 96--126)\<close>

text \<open>One pass through the body of the \<^verbatim>\<open>for step in range(num_explore_steps)\<close> loop.\<close>

definition explore_body ::
  "(real \<Rightarrow> real \<Rightarrow> 'g \<Rightarrow> real \<times> 'g) \<Rightarrow> config \<Rightarrow> int \<Rightarrow> ant \<times> 'g \<Rightarrow> error + ant \<times> 'g" where
  "explore_body U c step sg =
     (let (s, g) = sg;
          (delta, g) = U (- pi / 4) (pi / 4) g;
          s = s\<lparr>theta := theta s + delta\<rparr>;
          dx = step_length c * cos (theta s);
          dy = step_length c * sin (theta s);
          s = s\<lparr>x := x s + dx\<rparr>;
          s = s\<lparr>y := y s + dy\<rparr>;
          s = s\<lparr>Dx := Dx s + dx\<rparr>;
          s = s\<lparr>Dy := Dy s + dy\<rparr>
      in case py_mod step (scan_interval c) of
           Inl e \<Rightarrow> Inl e
         | Inr r \<Rightarrow>
             (let s = (if r = 0
                       then s\<lparr>theta := theta s - scan_gain c * (theta s - sun_direction c)\<rparr>
                       else s)
              in Inr (s\<lparr>explore_x := explore_x s @ [x s],
                        explore_y := explore_y s @ [y s],
                        Dx_hist := Dx_hist s @ [Dx s],
                        Dy_hist := Dy_hist s @ [Dy s],
                        theta_hist := theta_hist s @ [theta s]\<rparr>, g)))"

text \<open>The loop over the step indices; an exception leaves the loop at once.\<close>

fun explore_loop ::
  "(real \<Rightarrow> real \<Rightarrow> 'g \<Rightarrow> real \<times> 'g) \<Rightarrow> config \<Rightarrow> int list \<Rightarrow> ant \<times> 'g \<Rightarrow> error + ant \<times> 'g" where
  "explore_loop U c [] sg = Inr sg"
| "explore_loop U c (step # steps) sg =
     (case explore_body U c step sg of
        Inl e \<Rightarrow> Inl e
      | Inr sg' \<Rightarrow> explore_loop U c steps sg')"

definition explore ::
  "(real \<Rightarrow> real \<Rightarrow> 'g \<Rightarrow> real \<times> 'g) \<Rightarrow> config \<Rightarrow> 'g \<Rightarrow> error + ant \<times> 'g" where
  "explore U c g = explore_loop U c (py_range (num_explore_steps c)) (init_ant, g)"

subsection \<open>Returning to the nest (lines 126--147)\<close>

record home =
  food_x :: real
  food_y :: real
  R_mag :: real
  R_angle :: real
  home_angle :: real
  num_home_steps :: int
  home_x :: "real list"
  home_y :: "real list"

text \<open>One pass through the body of the \<^verbatim>\<open>for _ in range(num_home_steps)\<close> loop.\<close>

definition home_body :: "config \<Rightarrow> home \<Rightarrow> home" where
  "home_body c h =
     (let h = h\<lparr>food_x := food_x h + step_length c * cos (home_angle h)\<rparr>;
          h = h\<lparr>food_y := food_y h + step_length c * sin (home_angle h)\<rparr>
      in h\<lparr>home_x := home_x h @ [food_x h], home_y := home_y h @ [food_y h]\<rparr>)"

fun home_loop :: "config \<Rightarrow> int list \<Rightarrow> home \<Rightarrow> home" where
  "home_loop c [] h = h"
| "home_loop c (i # is) h = home_loop c is (home_body c h)"

definition return_home :: "config \<Rightarrow> ant \<Rightarrow> error + home" where
  "return_home c s =
     (let fx = x s; fy = y s;
          mag = sqrt ((Dx s)\<^sup>2 + (Dy s)\<^sup>2);
          ang = arctan2 (Dy s) (Dx s);
          hang = ang + pi
      in case int_of_quotient mag (step_length c) of
           Inl e \<Rightarrow> Inl e
         | Inr n \<Rightarrow>
             Inr (home_loop c (py_range n)
                    \<lparr>food_x = fx, food_y = fy, R_mag = mag, R_angle = ang, home_angle = hang,
                     num_home_steps = n, home_x = [fx], home_y = [fy]\<rparr>))"

subsection \<open>The whole run\<close>

definition simulate ::
  "(real \<Rightarrow> real \<Rightarrow> 'g \<Rightarrow> real \<times> 'g) \<Rightarrow> config \<Rightarrow> 'g \<Rightarrow> error + ant \<times> home" where
  "simulate U c g =
     (case explore U c g of
        Inl e \<Rightarrow> Inl e
      | Inr (s, g') \<Rightarrow> (case return_home c s of Inl e \<Rightarrow> Inl e | Inr h \<Rightarrow> Inr (s, h)))"

text \<open>The script as written: seed \<open>1\<close> and the parameters of lines 63--69.\<close>

definition ant_trajectory ::
  "(int \<Rightarrow> 'g) \<Rightarrow> (real \<Rightarrow> real \<Rightarrow> 'g \<Rightarrow> real \<times> 'g) \<Rightarrow> error + ant \<times> home" where
  "ant_trajectory seed_fn U = simulate U script_config (seed_fn script_seed)"

subsection \<open>The generator's draws, in order\<close>

text \<open>
  The generator state after \<open>k\<close> calls of \<^verbatim>\<open>np.random.uniform(-np.pi / 4, np.pi / 4)\<close>,
  and the sample that call number \<open>k\<close> (counted from 0) returns.
\<close>

definition rng_after :: "(real \<Rightarrow> real \<Rightarrow> 'g \<Rightarrow> real \<times> 'g) \<Rightarrow> 'g \<Rightarrow> nat \<Rightarrow> 'g" where
  "rng_after U g k = ((\<lambda>g. snd (U (- pi / 4) (pi / 4) g)) ^^ k) g"

definition draw_at :: "(real \<Rightarrow> real \<Rightarrow> 'g \<Rightarrow> real \<times> 'g) \<Rightarrow> 'g \<Rightarrow> nat \<Rightarrow> real" where
  "draw_at U g k = fst (U (- pi / 4) (pi / 4) (rng_after U g k))"

text \<open>
  A generator for concrete runs: its state counts the calls, and every sample is the
  midpoint of the requested interval (for the interval of the script: no perturbation).
\<close>

definition mid_uniform :: "real \<Rightarrow> real \<Rightarrow> nat \<Rightarrow> real \<times> nat" where
  "mid_uniform lo hi g = ((lo + hi) / 2, Suc g)"

text \<open>The state of the exploration after its first \<open>m\<close> steps.\<close>

definition ant_at ::
  "(real \<Rightarrow> real \<Rightarrow> 'g \<Rightarrow> real \<times> 'g) \<Rightarrow> config \<Rightarrow> 'g \<Rightarrow> nat \<Rightarrow> error + ant \<times> 'g" where
  "ant_at U c g m = explore_loop U c (py_range (int m)) (init_ant, g)"

text \<open>The state of the return walk after its first \<open>m\<close> steps, from the state \<open>h\<close>.\<close>

definition home_at :: "config \<Rightarrow> home \<Rightarrow> nat \<Rightarrow> home" where
  "home_at c h m = home_loop c (py_range (int m)) h"

subsection \<open>Concrete runs\<close>

text \<open>
  The scenario of the specification: step length \<open>0.5\<close>, three exploration steps, a scan
  every ten steps with gain \<open>0.1\<close>, reference direction \<open>0\<close>, and no perturbation. The
  ant walks \<open>(0,0) \<rightarrow> (0.5,0) \<rightarrow> (1,0) \<rightarrow> (1.5,0)\<close> and returns in three steps.
\<close>

definition scenario_config :: config where
  "scenario_config =
     \<lparr>step_length = 1 / 2, num_explore_steps = 3, scan_interval = 10,
      scan_gain = 1 / 10, sun_direction = 0\<rparr>"

definition scenario_ant :: ant where
  "scenario_ant =
     \<lparr>x = 3 / 2, y = 0, Dx = 3 / 2, Dy = 0, theta = 0,
      explore_x = [0, 1 / 2, 1, 3 / 2], explore_y = [0, 0, 0, 0],
      Dx_hist = [0, 1 / 2, 1, 3 / 2], Dy_hist = [0, 0, 0, 0], theta_hist = [0, 0, 0, 0]\<rparr>"

definition scenario_home :: home where
  "scenario_home =
     \<lparr>food_x = 0, food_y = 0, R_mag = 3 / 2, R_angle = 0, home_angle = pi,
      num_home_steps = 3, home_x = [3 / 2, 1, 1 / 2, 0], home_y = [0, 0, 0, 0]\<rparr>"



section \<open>The loops, step by step\<close>

subsection \<open>Exploration\<close>

lemma py_range_Suc: "py_range (int (Suc m)) = py_range (int m) @ [int m]"
  unfolding py_range_def nat_int by simp

lemma py_range_nat: "py_range n = py_range (int (nat n))"
  by (simp add: py_range_def)

lemma explore_loop_append:
  "explore_loop U c (xs @ ys) sg =
     (case explore_loop U c xs sg of Inl e \<Rightarrow> Inl e | Inr sg' \<Rightarrow> explore_loop U c ys sg')"
  by (induction xs arbitrary: sg) (auto split: sum.splits)

lemma ant_at_0: "ant_at U c g 0 = Inr (init_ant, g)"
  by (simp add: ant_at_def py_range_def)

lemma ant_at_Suc:
  "ant_at U c g (Suc m) =
     (case ant_at U c g m of Inl e \<Rightarrow> Inl e | Inr sg \<Rightarrow> explore_body U c (int m) sg)"
  unfolding ant_at_def py_range_Suc explore_loop_append
  by (simp split: sum.splits)

lemma explore_ant_at: "explore U c g = ant_at U c g (nat (num_explore_steps c))"
  unfolding explore_def ant_at_def by (subst py_range_nat) simp

lemma explore_body_Inr:
  assumes "explore_body U c step (s, g) = Inr (s', g')"
  shows "g' = snd (U (- pi / 4) (pi / 4) g)"
    and "x s' = x s + step_length c * cos (theta s + fst (U (- pi / 4) (pi / 4) g))"
    and "y s' = y s + step_length c * sin (theta s + fst (U (- pi / 4) (pi / 4) g))"
    and "Dx s' = Dx s + step_length c * cos (theta s + fst (U (- pi / 4) (pi / 4) g))"
    and "Dy s' = Dy s + step_length c * sin (theta s + fst (U (- pi / 4) (pi / 4) g))"
    and "theta s' =
          (let th = theta s + fst (U (- pi / 4) (pi / 4) g)
           in if step mod scan_interval c = 0
              then th - scan_gain c * (th - sun_direction c) else th)"
    and "explore_x s' = explore_x s @ [x s']"
    and "explore_y s' = explore_y s @ [y s']"
    and "Dx_hist s' = Dx_hist s @ [Dx s']"
    and "Dy_hist s' = Dy_hist s @ [Dy s']"
    and "theta_hist s' = theta_hist s @ [theta s']"
    and "scan_interval c \<noteq> 0"
  using assms
  by (auto simp: explore_body_def py_mod_def Let_def split: prod.splits if_splits)



lemma ant_at_SucE:
  assumes "ant_at U c g (Suc m) = Inr (s', g')"
  obtains s gm where "ant_at U c g m = Inr (s, gm)"
    and "explore_body U c (int m) (s, gm) = Inr (s', g')"
  using assms by (auto simp: ant_at_Suc split: sum.splits)



lemma rng_after_Suc:
  "rng_after U g (Suc k) = snd (U (- pi / 4) (pi / 4) (rng_after U g k))"
  by (simp add: rng_after_def)

lemma ant_at_rng: "ant_at U c g m = Inr (s, g') \<Longrightarrow> g' = rng_after U g m"
proof (induction m arbitrary: s g')
  case 0
  then show ?case by (simp add: ant_at_0 rng_after_def)
next
  case (Suc m)
  from Suc.prems obtain s0 gm where a: "ant_at U c g m = Inr (s0, gm)"
    and b: "explore_body U c (int m) (s0, gm) = Inr (s, g')"
    by (rule ant_at_SucE)
  from Suc.IH [OF a] explore_body_Inr(1) [OF b] show ?case
    by (simp add: rng_after_Suc)
qed

lemma ant_at_length:
  "ant_at U c g m = Inr (s, g') \<Longrightarrow>
     length (explore_x s) = Suc m \<and> length (explore_y s) = Suc m \<and>
     length (Dx_hist s) = Suc m \<and> length (Dy_hist s) = Suc m \<and>
     length (theta_hist s) = Suc m"
proof (induction m arbitrary: s g')
  case 0
  then show ?case by (auto simp: ant_at_0 init_ant_def)
next
  case (Suc m)
  from Suc.prems obtain s0 gm where a: "ant_at U c g m = Inr (s0, gm)"
    and b: "explore_body U c (int m) (s0, gm) = Inr (s, g')"
    by (rule ant_at_SucE)
  from Suc.IH [OF a] explore_body_Inr(7-11) [OF b] show ?case
    by simp
qed

lemma ant_at_nth:
  "ant_at U c g m = Inr (s, g') \<Longrightarrow> j \<le> m \<Longrightarrow>
     \<exists>sj gj. ant_at U c g j = Inr (sj, gj) \<and>
       explore_x s ! j = x sj \<and> explore_y s ! j = y sj \<and>
       Dx_hist s ! j = Dx sj \<and> Dy_hist s ! j = Dy sj \<and> theta_hist s ! j = theta sj"
proof (induction m arbitrary: s g')
  case 0
  then show ?case by (auto simp: ant_at_0 init_ant_def)
next
  case (Suc m)
  from Suc.prems(1) obtain s0 gm where a: "ant_at U c g m = Inr (s0, gm)"
    and b: "explore_body U c (int m) (s0, gm) = Inr (s, g')"
    by (rule ant_at_SucE)
  note len = ant_at_length [OF a]
  note app = explore_body_Inr(7-11) [OF b]
  show ?case
  proof (cases "j = Suc m")
    case True
    have "explore_x s ! j = x s" "explore_y s ! j = y s" "Dx_hist s ! j = Dx s"
      "Dy_hist s ! j = Dy s" "theta_hist s ! j = theta s"
      using len app True by (simp_all add: nth_append)
    with Suc.prems(1) True show ?thesis by blast
  next
    case False
    with Suc.prems(2) have "j \<le> m" by simp
    from Suc.IH [OF a this] obtain sj gj where sj: "ant_at U c g j = Inr (sj, gj)"
      "explore_x s0 ! j = x sj" "explore_y s0 ! j = y sj" "Dx_hist s0 ! j = Dx sj"
      "Dy_hist s0 ! j = Dy sj" "theta_hist s0 ! j = theta sj"
      by blast
    have "explore_x s ! j = x sj" "explore_y s ! j = y sj" "Dx_hist s ! j = Dx sj"
      "Dy_hist s ! j = Dy sj" "theta_hist s ! j = theta sj"
      using len app sj(2-6) \<open>j \<le> m\<close> by (simp_all add: nth_append)
    with sj(1) show ?thesis by blast
  qed
qed

lemma ant_at_last:
  assumes "ant_at U c g m = Inr (s, g')"
  shows "last (explore_x s) = x s" "last (explore_y s) = y s" "last (Dx_hist s) = Dx s"
    "last (Dy_hist s) = Dy s" "last (theta_hist s) = theta s"
proof -
  from ant_at_nth [OF assms order_refl] obtain sj gj where
    "ant_at U c g m = Inr (sj, gj)" "explore_x s ! m = x sj" "explore_y s ! m = y sj"
    "Dx_hist s ! m = Dx sj" "Dy_hist s ! m = Dy sj" "theta_hist s ! m = theta sj"
    by blast
  with assms have "explore_x s ! m = x s" "explore_y s ! m = y s"
    "Dx_hist s ! m = Dx s" "Dy_hist s ! m = Dy s" "theta_hist s ! m = theta s"
    by simp_all
  moreover note len = ant_at_length [OF assms]
  moreover from len have "explore_x s \<noteq> []" "explore_y s \<noteq> []" "Dx_hist s \<noteq> []"
    "Dy_hist s \<noteq> []" "theta_hist s \<noteq> []"
    by auto
  ultimately show "last (explore_x s) = x s" "last (explore_y s) = y s"
    "last (Dx_hist s) = Dx s" "last (Dy_hist s) = Dy s" "last (theta_hist s) = theta s"
    by (simp_all add: last_conv_nth)
qed

lemma ant_at_step:
  assumes run: "ant_at U c g m = Inr (s, g')" and k: "k < m"
  shows "explore_x s ! Suc k =
           explore_x s ! k + step_length c * cos (theta_hist s ! k + draw_at U g k)"
    and "explore_y s ! Suc k =
           explore_y s ! k + step_length c * sin (theta_hist s ! k + draw_at U g k)"
    and "Dx_hist s ! Suc k =
           Dx_hist s ! k + step_length c * cos (theta_hist s ! k + draw_at U g k)"
    and "Dy_hist s ! Suc k =
           Dy_hist s ! k + step_length c * sin (theta_hist s ! k + draw_at U g k)"
    and "theta_hist s ! Suc k =
           (let th = theta_hist s ! k + draw_at U g k
            in if int k mod scan_interval c = 0
               then th - scan_gain c * (th - sun_direction c) else th)"
    and "scan_interval c \<noteq> 0"
proof -
  from k have "Suc k \<le> m" "k \<le> m" by simp_all
  from ant_at_nth [OF run \<open>Suc k \<le> m\<close>] obtain s1 g1 where
    s1: "ant_at U c g (Suc k) = Inr (s1, g1)" and
    h1: "explore_x s ! Suc k = x s1" "explore_y s ! Suc k = y s1" "Dx_hist s ! Suc k = Dx s1"
      "Dy_hist s ! Suc k = Dy s1" "theta_hist s ! Suc k = theta s1"
    by blast
  from s1 obtain s0 g0 where s0: "ant_at U c g k = Inr (s0, g0)"
    and b: "explore_body U c (int k) (s0, g0) = Inr (s1, g1)"
    by (rule ant_at_SucE)
  from ant_at_nth [OF run \<open>k \<le> m\<close>] s0 have
    h0: "explore_x s ! k = x s0" "explore_y s ! k = y s0" "Dx_hist s ! k = Dx s0"
      "Dy_hist s ! k = Dy s0" "theta_hist s ! k = theta s0"
    by auto
  have d: "fst (U (- pi / 4) (pi / 4) g0) = draw_at U g k"
    using ant_at_rng [OF s0] by (simp add: draw_at_def)
  note body = explore_body_Inr [OF b, unfolded d]
  show "explore_x s ! Suc k =
           explore_x s ! k + step_length c * cos (theta_hist s ! k + draw_at U g k)"
    using body(2) h0 h1 by simp
  show "explore_y s ! Suc k =
           explore_y s ! k + step_length c * sin (theta_hist s ! k + draw_at U g k)"
    using body(3) h0 h1 by simp
  show "Dx_hist s ! Suc k =
           Dx_hist s ! k + step_length c * cos (theta_hist s ! k + draw_at U g k)"
    using body(4) h0 h1 by simp
  show "Dy_hist s ! Suc k =
           Dy_hist s ! k + step_length c * sin (theta_hist s ! k + draw_at U g k)"
    using body(5) h0 h1 by simp
  show "theta_hist s ! Suc k =
           (let th = theta_hist s ! k + draw_at U g k
            in if int k mod scan_interval c = 0
               then th - scan_gain c * (th - sun_direction c) else th)"
    using body(6) h0 h1 by simp
  show "scan_interval c \<noteq> 0" by (rule body(12))
qed

lemma ant_at_integrated:
  "ant_at U c g m = Inr (s, g') \<Longrightarrow> Dx s = x s \<and> Dy s = y s"
proof (induction m arbitrary: s g')
  case 0
  then show ?case by (auto simp: ant_at_0 init_ant_def)
next
  case (Suc m)
  from Suc.prems obtain s0 gm where a: "ant_at U c g m = Inr (s0, gm)"
    and b: "explore_body U c (int m) (s0, gm) = Inr (s, g')"
    by (rule ant_at_SucE)
  from Suc.IH [OF a] explore_body_Inr(2-5) [OF b] show ?case by simp
qed

subsection \<open>The return walk\<close>

lemma home_loop_append: "home_loop c (xs @ ys) h = home_loop c ys (home_loop c xs h)"
  by (induction xs arbitrary: h) simp_all

lemma home_at_0: "home_at c h 0 = h"
  by (simp add: home_at_def py_range_def)

lemma home_at_Suc: "home_at c h (Suc m) = home_body c (home_at c h m)"
  unfolding home_at_def py_range_Suc home_loop_append by simp

lemma home_body_simps:
  "R_mag (home_body c h) = R_mag h"
  "R_angle (home_body c h) = R_angle h"
  "home_angle (home_body c h) = home_angle h"
  "num_home_steps (home_body c h) = num_home_steps h"
  "food_x (home_body c h) = food_x h + step_length c * cos (home_angle h)"
  "food_y (home_body c h) = food_y h + step_length c * sin (home_angle h)"
  "home_x (home_body c h) = home_x h @ [food_x h + step_length c * cos (home_angle h)]"
  "home_y (home_body c h) = home_y h @ [food_y h + step_length c * sin (home_angle h)]"
  by (simp_all add: home_body_def Let_def)

lemma home_at_frame:
  "R_mag (home_at c h m) = R_mag h \<and> R_angle (home_at c h m) = R_angle h \<and>
   home_angle (home_at c h m) = home_angle h \<and>
   num_home_steps (home_at c h m) = num_home_steps h"
  by (induction m) (simp_all add: home_at_0 home_at_Suc home_body_simps)

lemma home_at_food:
  "food_x (home_at c h m) = food_x h + real m * (step_length c * cos (home_angle h)) \<and>
   food_y (home_at c h m) = food_y h + real m * (step_length c * sin (home_angle h))"
  by (induction m) (simp_all add: home_at_0 home_at_Suc home_body_simps home_at_frame algebra_simps)

lemma home_at_length:
  "length (home_x (home_at c h m)) = length (home_x h) + m \<and>
   length (home_y (home_at c h m)) = length (home_y h) + m"
  by (induction m) (simp_all add: home_at_0 home_at_Suc home_body_simps)

lemma home_at_nth:
  assumes "home_x h = [food_x h]" "home_y h = [food_y h]" "j \<le> m"
  shows "home_x (home_at c h m) ! j = food_x h + real j * (step_length c * cos (home_angle h)) \<and>
         home_y (home_at c h m) ! j = food_y h + real j * (step_length c * sin (home_angle h))"
  using assms(3)
proof (induction m)
  case 0
  then show ?case using assms(1,2) by (simp add: home_at_0)
next
  case (Suc m)
  have len: "length (home_x (home_at c h m)) = Suc m" "length (home_y (home_at c h m)) = Suc m"
    using home_at_length [of c h m] assms(1,2) by simp_all
  show ?case
  proof (cases "j = Suc m")
    case True
    then show ?thesis
      using len home_at_food [of c h m] home_at_frame [of c h m]
      by (simp add: home_at_Suc home_body_simps nth_append algebra_simps)
  next
    case False
    with Suc.prems have "j \<le> m" by simp
    from Suc.IH [OF this] show ?thesis
      using len \<open>j \<le> m\<close> by (simp add: home_at_Suc home_body_simps nth_append)
  qed
qed

lemma return_home_Inr:
  assumes "return_home c s = Inr h"
  shows "step_length c \<noteq> 0"
    and "h = home_at c
           \<lparr>food_x = x s, food_y = y s, R_mag = sqrt ((Dx s)\<^sup>2 + (Dy s)\<^sup>2),
            R_angle = arctan2 (Dy s) (Dx s), home_angle = arctan2 (Dy s) (Dx s) + pi,
            num_home_steps = py_int (sqrt ((Dx s)\<^sup>2 + (Dy s)\<^sup>2) / step_length c),
            home_x = [x s], home_y = [y s]\<rparr>
           (nat (py_int (sqrt ((Dx s)\<^sup>2 + (Dy s)\<^sup>2) / step_length c)))"
  using assms
  by (auto simp: return_home_def int_of_quotient_def Let_def home_at_def py_range_def
      split: if_splits)


lemma sqrt_sum_squares_factor:
  fixes a b :: real
  assumes "a \<noteq> 0"
  shows "sqrt (a\<^sup>2 + b\<^sup>2) = \<bar>a\<bar> * sqrt (1 + (b / a)\<^sup>2)"
proof -
  have "a\<^sup>2 + b\<^sup>2 = a\<^sup>2 * (1 + (b / a)\<^sup>2)"
    using assms by (simp add: field_simps power2_eq_square)
  then show ?thesis by (simp add: real_sqrt_mult)
qed

lemma arctan2_cos: "sqrt (a\<^sup>2 + b\<^sup>2) * cos (arctan2 b a) = a"
proof -
  have pos: "0 < sqrt (1 + (b / a)\<^sup>2)"
    by (simp add: add_pos_nonneg)
  consider "0 < a" | "a < 0" | "a = 0"
    by linarith
  then show ?thesis
  proof cases
    case 1
    then show ?thesis
      using pos by (simp add: arctan2_def cos_arctan sqrt_sum_squares_factor)
  next
    case 2
    then show ?thesis
      using pos by (simp add: arctan2_def cos_arctan sqrt_sum_squares_factor)
  next
    case 3
    then show ?thesis by (simp add: arctan2_def)
  qed
qed

lemma arctan2_sin: "sqrt (a\<^sup>2 + b\<^sup>2) * sin (arctan2 b a) = b"
proof -
  have pos: "0 < sqrt (1 + (b / a)\<^sup>2)"
    by (simp add: add_pos_nonneg)
  consider "0 < a" | "a < 0" | "a = 0"
    by linarith
  then show ?thesis
  proof cases
    case 1
    then show ?thesis
      using pos by (simp add: arctan2_def sin_arctan sqrt_sum_squares_factor)
  next
    case 2
    then show ?thesis
      using pos by (simp add: arctan2_def sin_arctan sqrt_sum_squares_factor)
  next
    case 3
    then show ?thesis by (simp add: arctan2_def)
  qed
qed


lemma explore_nth_origin:
  assumes "explore U c g = Inr (s, g')"
  shows "explore_x s ! 0 = 0" "explore_y s ! 0 = 0" "Dx_hist s ! 0 = 0" "Dy_hist s ! 0 = 0"
    "theta_hist s ! 0 = 0"
proof -
  from assms have run: "ant_at U c g (nat (num_explore_steps c)) = Inr (s, g')"
    by (simp add: explore_ant_at)
  from ant_at_nth [OF run, of 0] show "explore_x s ! 0 = 0" "explore_y s ! 0 = 0"
    "Dx_hist s ! 0 = 0" "Dy_hist s ! 0 = 0" "theta_hist s ! 0 = 0"
    by (auto simp: ant_at_0 init_ant_def)
qed

subsection \<open>The whole run: results, draws and failures\<close>

lemma simulate_Inr:
  assumes "simulate U c g = Inr (s, h)"
  obtains g' where "explore U c g = Inr (s, g')" and "return_home c s = Inr h"
  using assms by (auto simp: simulate_def split: sum.splits)


lemma return_home_summary:
  assumes "return_home c s = Inr h"
  shows "R_mag h = sqrt ((Dx s)\<^sup>2 + (Dy s)\<^sup>2)"
    and "R_angle h = arctan2 (Dy s) (Dx s)"
    and "home_angle h = arctan2 (Dy s) (Dx s) + pi"
    and "num_home_steps h = py_int (sqrt ((Dx s)\<^sup>2 + (Dy s)\<^sup>2) / step_length c)"
  by (subst return_home_Inr(2) [OF assms], simp add: home_at_frame)+


lemma explore_body_draw:
  assumes "fst (U (- pi / 4) (pi / 4) g) = fst (U' (- pi / 4) (pi / 4) g')"
  shows "map_sum (\<lambda>e. e) fst (explore_body U c k (s, g)) = map_sum (\<lambda>e. e) fst (explore_body U' c k (s, g'))"
proof -
  obtain d gn where u: "U (- pi / 4) (pi / 4) g = (d, gn)"
    by (cases "U (- pi / 4) (pi / 4) g")
  obtain d' gn' where u': "U' (- pi / 4) (pi / 4) g' = (d', gn')"
    by (cases "U' (- pi / 4) (pi / 4) g'")
  from assms u u' have "d' = d" by simp
  with u u' show ?thesis
    by (simp add: explore_body_def Let_def split: sum.splits)
qed

lemma ant_at_draws:
  assumes "\<forall>k<m. draw_at U g k = draw_at U' g' k"
  shows "map_sum (\<lambda>e. e) fst (ant_at U c g m) = map_sum (\<lambda>e. e) fst (ant_at U' c g' m)"
  using assms
proof (induction m)
  case 0
  show ?case by (simp add: ant_at_0)
next
  case (Suc m)
  from Suc.prems have "\<forall>k<m. draw_at U g k = draw_at U' g' k"
    and d: "draw_at U g m = draw_at U' g' m"
    by simp_all
  from Suc.IH [OF this(1)]
  have IH: "map_sum (\<lambda>e. e) fst (ant_at U c g m) = map_sum (\<lambda>e. e) fst (ant_at U' c g' m)" .
  show ?case
  proof (cases "ant_at U c g m")
    case (Inl e)
    with IH have "ant_at U' c g' m = Inl e"
      by (cases "ant_at U' c g' m") simp_all
    with Inl show ?thesis by (simp add: ant_at_Suc)
  next
    case (Inr sg)
    obtain s gm where sg: "sg = (s, gm)" by (cases sg)
    with Inr IH obtain gm' where r': "ant_at U' c g' m = Inr (s, gm')"
      by (cases "ant_at U' c g' m") auto
    from Inr sg have r: "ant_at U c g m = Inr (s, gm)" by simp
    have "fst (U (- pi / 4) (pi / 4) gm) = fst (U' (- pi / 4) (pi / 4) gm')"
      using d ant_at_rng [OF r] ant_at_rng [OF r'] by (simp add: draw_at_def)
    then have "map_sum (\<lambda>e. e) fst (explore_body U c (int m) (s, gm)) =
               map_sum (\<lambda>e. e) fst (explore_body U' c (int m) (s, gm'))"
      by (rule explore_body_draw)
    with r r' show ?thesis
      by (simp add: ant_at_Suc)
  qed
qed

lemma simulate_via_ant:
  "simulate U c g =
     (case map_sum (\<lambda>e. e) fst (explore U c g) of
        Inl e \<Rightarrow> Inl e
      | Inr s \<Rightarrow> (case return_home c s of Inl e \<Rightarrow> Inl e | Inr h \<Rightarrow> Inr (s, h)))"
  by (simp add: simulate_def split: sum.splits prod.splits)





subsection \<open>The concrete runs, evaluated\<close>

lemma mid_uniform_script [simp]: "mid_uniform (- (pi / 4)) (pi / 4) g = (0, Suc g)"
  by (simp add: mid_uniform_def)

lemma scenario_explore: "explore mid_uniform scenario_config 0 = Inr (scenario_ant, 3)"
  by (simp add: explore_def scenario_config_def py_range_def explore_body_def py_mod_def init_ant_def scenario_ant_def upt_rec Let_def)

lemma sqrt_9_4: "sqrt (9 / 4) = 3 / 2"
  using real_sqrt_abs [of "3 / 2"] by (simp add: power2_eq_square)

lemma scenario_return: "return_home scenario_config scenario_ant = Inr scenario_home"
  by (simp add: return_home_def scenario_config_def scenario_ant_def scenario_home_def int_of_quotient_def py_int_def arctan2_def py_range_def upt_rec home_body_def power2_eq_square sqrt_9_4 Let_def)

lemma scenario_run: "simulate mid_uniform scenario_config 0 = Inr (scenario_ant, scenario_home)"
  by (simp add: simulate_def scenario_explore scenario_return)


lemma rng_after_mid [simp]: "rng_after mid_uniform g k = g + k"
  by (induction k) (simp_all add: rng_after_def)

lemma draw_at_mid [simp]: "draw_at mid_uniform g k = 0"
  by (simp add: draw_at_def)



section \<open>The claims\<close>

text \<open>
  C1 (path-integration identity). In every run of the exploration that completes, and for
  every index \<open>k\<close> from \<open>0\<close> to \<open>num_explore_steps\<close>, the recorded displacement estimate
  \<open>(Dx_hist[k], Dy_hist[k])\<close> is the recorded position \<open>(explore_x[k], explore_y[k])\<close> minus
  the initial position \<open>(explore_x[0], explore_y[0])\<close>; both records start at the origin,
  and \<open>k\<close> is an index of all four lists.
\<close>

theorem path_integration_identity:
  assumes "explore U c g = Inr (s, g')" and "k \<le> nat (num_explore_steps c)"
  shows "Dx_hist s ! k = explore_x s ! k - explore_x s ! 0 \<and>
         Dy_hist s ! k = explore_y s ! k - explore_y s ! 0 \<and>
         explore_x s ! 0 = 0 \<and> explore_y s ! 0 = 0 \<and> Dx_hist s ! 0 = 0 \<and> Dy_hist s ! 0 = 0 \<and>
         k < length (explore_x s) \<and> k < length (explore_y s) \<and>
         k < length (Dx_hist s) \<and> k < length (Dy_hist s)"
proof -
  from assms(1) have run: "ant_at U c g (nat (num_explore_steps c)) = Inr (s, g')"
    by (simp add: explore_ant_at)
  from ant_at_nth [OF run assms(2)] obtain sk gk where
    sk: "ant_at U c g k = Inr (sk, gk)" and
    h: "explore_x s ! k = x sk" "explore_y s ! k = y sk" "Dx_hist s ! k = Dx sk"
      "Dy_hist s ! k = Dy sk"
    by blast
  from ant_at_integrated [OF sk] h have "Dx_hist s ! k = explore_x s ! k"
    "Dy_hist s ! k = explore_y s ! k"
    by simp_all
  moreover note explore_nth_origin(1-4) [OF assms(1)]
  moreover from ant_at_length [OF run] assms(2) have "k < length (explore_x s)"
    "k < length (explore_y s)" "k < length (Dx_hist s)" "k < length (Dy_hist s)"
    by simp_all
  ultimately show ?thesis by simp
qed

theorem path_integration_identity_witness:
  "explore mid_uniform scenario_config 0 = Inr (scenario_ant, 3) \<and>
   (2::nat) \<le> nat (num_explore_steps scenario_config) \<and>
   Dx_hist scenario_ant ! 2 = 1 \<and> explore_x scenario_ant ! 2 - explore_x scenario_ant ! 0 = 1 \<and>
   Dy_hist scenario_ant ! 2 = explore_y scenario_ant ! 2 - explore_y scenario_ant ! 0"
proof -
  have run: "explore mid_uniform scenario_config 0 = Inr (scenario_ant, 3)"
    by (rule scenario_explore)
  have k: "(2::nat) \<le> nat (num_explore_steps scenario_config)"
    by (simp add: scenario_config_def)
  from path_integration_identity [OF run k] run k show ?thesis
    by (simp add: scenario_ant_def)
qed

text \<open>
  C2 (per-step exploration update). In every run of the exploration that completes, step
  \<open>k\<close> (for \<open>k < num_explore_steps\<close>) draws the perturbation number \<open>k\<close> of the generator,
  \<open>delta = draw_at U g k\<close>, one call of \<^verbatim>\<open>uniform(-pi/4, pi/4)\<close>; with the perturbed heading
  \<open>theta' = theta_hist[k] + delta\<close> (the heading before this step's scan correction) the
  step displacement \<open>(step_length * cos theta', step_length * sin theta')\<close> is added both to
  the position and to the displacement estimate; and the run leaves the generator in the
  state after exactly \<open>num_explore_steps\<close> draws.
\<close>

theorem exploration_step_update:
  assumes "explore U c g = Inr (s, g')" and "k < nat (num_explore_steps c)"
  shows "(let delta = fst (U (- pi / 4) (pi / 4) (rng_after U g k));
              theta' = theta_hist s ! k + delta;
              dx = step_length c * cos theta';
              dy = step_length c * sin theta'
          in explore_x s ! Suc k = explore_x s ! k + dx \<and>
             explore_y s ! Suc k = explore_y s ! k + dy \<and>
             Dx_hist s ! Suc k = Dx_hist s ! k + dx \<and>
             Dy_hist s ! Suc k = Dy_hist s ! k + dy) \<and>
         g' = rng_after U g (nat (num_explore_steps c))"
proof -
  from assms(1) have run: "ant_at U c g (nat (num_explore_steps c)) = Inr (s, g')"
    by (simp add: explore_ant_at)
  from ant_at_step(1-4) [OF run assms(2)] ant_at_rng [OF run] show ?thesis
    by (simp add: Let_def draw_at_def)
qed

theorem exploration_step_update_witness:
  "explore mid_uniform scenario_config 0 = Inr (scenario_ant, 3) \<and>
   (1::nat) < nat (num_explore_steps scenario_config) \<and>
   fst (mid_uniform (- pi / 4) (pi / 4) (rng_after mid_uniform 0 1)) = 0 \<and>
   theta_hist scenario_ant ! 1 = 0 \<and>
   explore_x scenario_ant ! 2 = explore_x scenario_ant ! 1 + step_length scenario_config * cos 0 \<and>
   Dx_hist scenario_ant ! 2 = Dx_hist scenario_ant ! 1 + step_length scenario_config * cos 0 \<and>
   explore_y scenario_ant ! 2 = explore_y scenario_ant ! 1 + step_length scenario_config * sin 0 \<and>
   Dy_hist scenario_ant ! 2 = Dy_hist scenario_ant ! 1 + step_length scenario_config * sin 0 \<and>
   (3::nat) = rng_after mid_uniform 0 (nat (num_explore_steps scenario_config))"
proof -
  have run: "explore mid_uniform scenario_config 0 = Inr (scenario_ant, 3)"
    by (rule scenario_explore)
  have k: "(1::nat) < nat (num_explore_steps scenario_config)"
    by (simp add: scenario_config_def)
  from exploration_step_update [OF run k] run k show ?thesis
    by (simp add: scenario_ant_def scenario_config_def)
qed





text \<open>
  C6 (recorded sequence lengths). For a run that completes, with
  \<open>num_explore_steps \<ge> 0\<close> and \<open>step_length > 0\<close> as the configuration requires: each of
  the five exploration lists has length \<open>num_explore_steps + 1\<close>, the two return-path
  lists have length \<open>num_home_steps + 1\<close> with \<open>num_home_steps \<ge> 0\<close>, and the return path
  starts at the position where the exploration ended.
\<close>

theorem recorded_sequence_lengths:
  assumes "simulate U c g = Inr (s, h)" and "0 \<le> num_explore_steps c" and "0 < step_length c"
  shows "int (length (explore_x s)) = num_explore_steps c + 1 \<and>
         int (length (explore_y s)) = num_explore_steps c + 1 \<and>
         int (length (theta_hist s)) = num_explore_steps c + 1 \<and>
         int (length (Dx_hist s)) = num_explore_steps c + 1 \<and>
         int (length (Dy_hist s)) = num_explore_steps c + 1 \<and>
         0 \<le> num_home_steps h \<and>
         int (length (home_x h)) = num_home_steps h + 1 \<and>
         int (length (home_y h)) = num_home_steps h + 1 \<and>
         home_x h ! 0 = last (explore_x s) \<and> home_y h ! 0 = last (explore_y s)"
proof -
  from assms(1) obtain g' where ex: "explore U c g = Inr (s, g')"
    and ret: "return_home c s = Inr h"
    by (rule simulate_Inr)
  from ex have run: "ant_at U c g (nat (num_explore_steps c)) = Inr (s, g')"
    by (simp add: explore_ant_at)
  define h0 :: home where "h0 =
     \<lparr>food_x = x s, food_y = y s, R_mag = sqrt ((Dx s)\<^sup>2 + (Dy s)\<^sup>2),
      R_angle = arctan2 (Dy s) (Dx s), home_angle = arctan2 (Dy s) (Dx s) + pi,
      num_home_steps = py_int (sqrt ((Dx s)\<^sup>2 + (Dy s)\<^sup>2) / step_length c),
      home_x = [x s], home_y = [y s]\<rparr>"
  have h: "h = home_at c h0 (nat (num_home_steps h0))"
    using return_home_Inr(2) [OF ret] by (simp add: h0_def)
  have n: "num_home_steps h = num_home_steps h0"
    by (subst h) (simp add: home_at_frame)
  have "0 \<le> sqrt ((Dx s)\<^sup>2 + (Dy s)\<^sup>2) / step_length c"
    using assms(3) by simp
  then have nonneg: "0 \<le> num_home_steps h0"
    by (simp add: h0_def py_int_def)
  have len: "length (home_x h) = Suc (nat (num_home_steps h0))"
    "length (home_y h) = Suc (nat (num_home_steps h0))"
    using home_at_length [of c h0 "nat (num_home_steps h0)"]
    by (subst h, simp add: h0_def)+
  have first: "home_x h ! 0 = x s" "home_y h ! 0 = y s"
    using home_at_nth [of h0 0 "nat (num_home_steps h0)" c]
    by (subst h, simp add: h0_def)+
  from ant_at_length [OF run] assms(2) n nonneg len first ant_at_last(1,2) [OF run]
  show ?thesis by simp
qed

theorem recorded_sequence_lengths_witness:
  "simulate mid_uniform scenario_config 0 = Inr (scenario_ant, scenario_home) \<and>
   0 \<le> num_explore_steps scenario_config \<and> 0 < step_length scenario_config \<and>
   int (length (explore_x scenario_ant)) = 3 + 1 \<and>
   int (length (theta_hist scenario_ant)) = num_explore_steps scenario_config + 1 \<and>
   int (length (Dx_hist scenario_ant)) = num_explore_steps scenario_config + 1 \<and>
   int (length (home_x scenario_home)) = num_home_steps scenario_home + 1 \<and>
   int (length (home_y scenario_home)) = 3 + 1"
proof -
  have a: "0 \<le> num_explore_steps scenario_config" and b: "0 < step_length scenario_config"
    by (simp_all add: scenario_config_def)
  from recorded_sequence_lengths [OF scenario_run a b] scenario_run a b show ?thesis
    by (simp add: scenario_config_def scenario_home_def)
qed

text \<open>
  C8 (zero-step edge case). With \<open>num_explore_steps = 0\<close> (and a step length that is not
  zero) the run completes: every exploration list holds the initial state only, the final
  displacement estimate is \<open>(0, 0)\<close>, the magnitude is \<open>0\<close>, there are \<open>0\<close> return steps,
  and the return path is the single point \<open>(0, 0)\<close>, the position where the exploration
  ended.
\<close>

theorem zero_step_run:
  assumes "num_explore_steps c = 0" and "step_length c \<noteq> 0"
  shows "simulate U c g =
           Inr (\<lparr>x = 0, y = 0, Dx = 0, Dy = 0, theta = 0,
                 explore_x = [0], explore_y = [0], Dx_hist = [0], Dy_hist = [0],
                 theta_hist = [0]\<rparr>,
                \<lparr>food_x = 0, food_y = 0, R_mag = 0, R_angle = 0, home_angle = pi,
                 num_home_steps = 0, home_x = [0], home_y = [0]\<rparr>)"
  using assms
  by (simp add: simulate_def explore_def py_range_def init_ant_def return_home_def
      int_of_quotient_def py_int_def arctan2_def Let_def)

theorem zero_step_run_witness:
  "num_explore_steps (scenario_config\<lparr>num_explore_steps := 0\<rparr>) = 0 \<and>
   step_length (scenario_config\<lparr>num_explore_steps := 0\<rparr>) \<noteq> 0 \<and>
   simulate mid_uniform (scenario_config\<lparr>num_explore_steps := 0\<rparr>) (0::nat) =
     Inr (\<lparr>x = 0, y = 0, Dx = 0, Dy = 0, theta = 0,
           explore_x = [0], explore_y = [0], Dx_hist = [0], Dy_hist = [0],
           theta_hist = [0]\<rparr>,
          \<lparr>food_x = 0, food_y = 0, R_mag = 0, R_angle = 0, home_angle = pi,
           num_home_steps = 0, home_x = [0], home_y = [0]\<rparr>)"
proof -
  have a: "num_explore_steps (scenario_config\<lparr>num_explore_steps := 0\<rparr>) = 0"
    and b: "step_length (scenario_config\<lparr>num_explore_steps := 0\<rparr>) \<noteq> 0"
    by (simp_all add: scenario_config_def)
  from zero_step_run [OF a b, of mid_uniform "0::nat"] a b show ?thesis
    by simp
qed

text \<open>
  C4 (return direction). For a run that completes, with \<open>(Dx, Dy)\<close> the final displacement
  estimate (the last entries of \<open>Dx_hist\<close> and \<open>Dy_hist\<close>): the magnitude is
  \<open>sqrt (Dx\<^sup>2 + Dy\<^sup>2)\<close>, the return angle is \<open>arctan2 Dy Dx + pi\<close>, its unit vector is the
  negative of the unit vector of \<open>arctan2 Dy Dx\<close>, and magnitude times that unit vector is
  \<open>(- Dx, - Dy)\<close>: the return heading is exactly opposite the accumulated displacement.
\<close>

theorem return_direction:
  assumes "simulate U c g = Inr (s, h)"
  shows "Dx s = last (Dx_hist s) \<and> Dy s = last (Dy_hist s) \<and>
         R_mag h = sqrt ((Dx s)\<^sup>2 + (Dy s)\<^sup>2) \<and>
         home_angle h = arctan2 (Dy s) (Dx s) + pi \<and>
         cos (home_angle h) = - cos (arctan2 (Dy s) (Dx s)) \<and>
         sin (home_angle h) = - sin (arctan2 (Dy s) (Dx s)) \<and>
         R_mag h * cos (home_angle h) = - Dx s \<and>
         R_mag h * sin (home_angle h) = - Dy s"
proof -
  from assms obtain g' where ex: "explore U c g = Inr (s, g')"
    and ret: "return_home c s = Inr h"
    by (rule simulate_Inr)
  from ex have run: "ant_at U c g (nat (num_explore_steps c)) = Inr (s, g')"
    by (simp add: explore_ant_at)
  note sm = return_home_summary(1,3) [OF ret]
  have "R_mag h * cos (home_angle h) = - Dx s" "R_mag h * sin (home_angle h) = - Dy s"
    using arctan2_cos [of "Dx s" "Dy s"] arctan2_sin [of "Dx s" "Dy s"]
    by (simp_all add: sm)
  with sm ant_at_last(3,4) [OF run] show ?thesis by simp
qed

theorem return_direction_witness:
  "simulate mid_uniform scenario_config 0 = Inr (scenario_ant, scenario_home) \<and>
   Dx scenario_ant = 3 / 2 \<and> Dy scenario_ant = 0 \<and>
   R_mag scenario_home = sqrt ((Dx scenario_ant)\<^sup>2 + (Dy scenario_ant)\<^sup>2) \<and>
   home_angle scenario_home = arctan2 (Dy scenario_ant) (Dx scenario_ant) + pi \<and>
   R_mag scenario_home * cos (home_angle scenario_home) = - Dx scenario_ant"
proof -
  have d: "Dx scenario_ant = 3 / 2" "Dy scenario_ant = 0"
    by (simp_all add: scenario_ant_def)
  from return_direction [OF scenario_run] scenario_run d show ?thesis
    by blast
qed



text \<open>
  C9 (determinism). A run is \<open>simulate U c g\<close>, where \<open>g\<close> is the generator state that the
  seed determines: a function of the configuration and that state, so two runs from the
  same seed and configuration agree on everything they record. Moreover the run depends
  on the generator only through its first \<open>num_explore_steps\<close> draws, taken in step
  order: two generators that agree on these draws give the same exploration lists, the
  same return path and the same summary (or the same error); and a completed exploration
  leaves the generator in the state after exactly \<open>num_explore_steps\<close> draws.
\<close>

theorem determinism:
  "((\<forall>k < nat (num_explore_steps c). draw_at U g k = draw_at U' g' k) \<longrightarrow>
      simulate U c g = simulate U' c g') \<and>
   (\<forall>s gfin. explore U c g = Inr (s, gfin) \<longrightarrow>
      gfin = rng_after U g (nat (num_explore_steps c)))"
proof (intro conjI impI allI)
  assume "\<forall>k < nat (num_explore_steps c). draw_at U g k = draw_at U' g' k"
  from ant_at_draws [OF this]
  have "map_sum (\<lambda>e. e) fst (explore U c g) = map_sum (\<lambda>e. e) fst (explore U' c g')"
    by (simp add: explore_ant_at)
  then show "simulate U c g = simulate U' c g'"
    by (simp add: simulate_via_ant)
next
  fix s gfin
  assume "explore U c g = Inr (s, gfin)"
  then show "gfin = rng_after U g (nat (num_explore_steps c))"
    unfolding explore_ant_at by (rule ant_at_rng)
qed

theorem determinism_witness:
  "draw_at mid_uniform (0::nat) 0 = draw_at mid_uniform (7::nat) 0 \<and>
   draw_at mid_uniform (0::nat) 1 = draw_at mid_uniform (7::nat) 1 \<and>
   draw_at mid_uniform (0::nat) 2 = draw_at mid_uniform (7::nat) 2 \<and>
   nat (num_explore_steps scenario_config) = 3 \<and>
   simulate mid_uniform scenario_config 0 = simulate mid_uniform scenario_config 7 \<and>
   simulate mid_uniform scenario_config 7 = Inr (scenario_ant, scenario_home) \<and>
   explore mid_uniform scenario_config 0 = Inr (scenario_ant, 3) \<and>
   (3::nat) = rng_after mid_uniform 0 (nat (num_explore_steps scenario_config))"
proof -
  have d: "\<forall>k < nat (num_explore_steps scenario_config).
             draw_at mid_uniform (0::nat) k = draw_at mid_uniform (7::nat) k"
    by simp
  have n: "nat (num_explore_steps scenario_config) = 3"
    by (simp add: scenario_config_def)
  from determinism [of scenario_config mid_uniform "0::nat" mid_uniform "7::nat"] d
  have same: "simulate mid_uniform scenario_config 0 = simulate mid_uniform scenario_config 7"
    and fin: "(3::nat) = rng_after mid_uniform 0 (nat (num_explore_steps scenario_config))"
    using scenario_explore by blast+
  from same scenario_run have "simulate mid_uniform scenario_config 7 = Inr (scenario_ant, scenario_home)"
    by simp
  with same fin n scenario_explore show ?thesis by simp
qed




end
